theory Spec2Isabelle
  imports Complex_Main "HOL-Library.Char_ord" "HOL-Library.List_Lexorder"
begin

section \<open>Numbers, missing values and positional slicing\<close>

text \<open>
  Python floats are modelled as exact rationals; a nullable float column holds
  \<open>rat option\<close>, with \<open>None\<close> for NaN. Arithmetic on a nullable value propagates NaN,
  a comparison with NaN is false, as in pandas. Binary rounding error is outside the model.
\<close>

definition fillna :: "rat \<Rightarrow> rat option \<Rightarrow> rat" where
  "fillna d v = (case v of None \<Rightarrow> d | Some x \<Rightarrow> x)"

definition nan_add :: "rat option \<Rightarrow> rat option \<Rightarrow> rat option" where
  "nan_add a b = (case a of None \<Rightarrow> None | Some x \<Rightarrow> (case b of None \<Rightarrow> None | Some y \<Rightarrow> Some (x + y)))"

definition nan_mul :: "rat option \<Rightarrow> rat \<Rightarrow> rat option" where
  "nan_mul a k = (case a of None \<Rightarrow> None | Some x \<Rightarrow> Some (x * k))"

definition nan_gt :: "rat option \<Rightarrow> rat \<Rightarrow> bool" where
  "nan_gt a k = (case a of None \<Rightarrow> False | Some x \<Rightarrow> k < x)"

text \<open>
  \<open>numpy.round\<close>, \<open>Series.round\<close> and Python's \<open>round\<close> all round half to even at the
  requested number of decimals.
\<close>

definition round_half_even :: "rat \<Rightarrow> int" where
  "round_half_even x =
     (let f = \<lfloor>x\<rfloor>; d = x - of_int f
      in if d < 1 / 2 then f
         else if 1 / 2 < d then f + 1
         else if even f then f else f + 1)"

definition round_dec :: "nat \<Rightarrow> rat \<Rightarrow> rat" where
  "round_dec k x = of_int (round_half_even (x * 10 ^ k)) / 10 ^ k"

text \<open>
  \<open>DataFrame.head(n)\<close> and the slice \<open>[:n]\<close>: the first \<open>n\<close> entries, and for a negative
  \<open>n\<close> all entries but the last \<open>-n\<close>.
\<close>

definition head :: "int \<Rightarrow> 'a list \<Rightarrow> 'a list" where
  "head n xs = (if 0 \<le> n then take (nat n) xs else take (length xs - nat (- n)) xs)"

text \<open>
  \<open>sort_values(col, ascending=False)\<close> on a float column: the rows with a number, by the
  number descending (pandas reverses, sorts ascending and reverses again, so rows with equal
  keys keep their order under a stable sort), followed by the NaN rows.
\<close>

definition sort_values_desc :: "('a \<times> rat option) list \<Rightarrow> ('a \<times> rat option) list" where
  "sort_values_desc xs =
     (let non_nans = filter (\<lambda>p. snd p \<noteq> None) xs;
          nans = filter (\<lambda>p. snd p = None) xs
      in rev (sort_key (\<lambda>p. fillna 0 (snd p)) (rev non_nans)) @ nans)"

section \<open>Request schema and errors\<close>

text \<open>
  \<open>RecommendRequest\<close> of the API schemas: the shopping list, the total budget and the
  optional location.
\<close>

record RecommendRequest =
  items :: "string list"
  total_budget :: rat
  city :: "string option"
  state :: "string option"

text \<open>The exceptions the modelled code can raise; \<open>HTTPException\<close> carries the status code.\<close>

datatype error = RuntimeError | IndexError | ValueError | AssertionError | HTTPException nat

section \<open>Catalog rows and data frames\<close>

text \<open>
  The columns the inference pipeline returns (\<open>OUTPUT_COLUMNS\<close>). After cleaning, the text
  columns are strings and \<open>Package_price\<close> is a positive number; the derived float columns
  may be NaN.
\<close>

record output_columns =
  Product_Name :: string
  Brand :: string
  Sub_category :: string
  Package_price :: rat
  price_per_100g :: "rat option"
  discount_pct :: "rat option"
  value_score :: "rat option"
  is_special :: int
  in_stock :: int
  city :: string
  state :: string
  Product_Url :: "string option"

text \<open>
  A row of the processed catalog: the output columns, the identifier and observation date
  (a day number, \<open>None\<close> for NaT), the remaining \<open>MODEL_FEATURES\<close>, and the
  \<open>search_score\<close> that retrieval attaches.
\<close>

record product = output_columns +
  Sku :: string
  RunDate :: "int option"
  log_price_per_100g :: "rat option"
  log_package_price :: "rat option"
  is_budget_brand :: int
  is_estimated :: int
  availability_score :: "rat option"
  category_code :: int
  sub_category_code :: int
  state_code :: int
  search_score :: "rat option"

text \<open>
  A data frame of catalog rows; \<open>has_search_score\<close> says whether the column
  \<open>search_score\<close> is among its columns.
\<close>

record DataFrame =
  has_search_score :: bool
  rows :: "product list"

section \<open>PricePredictor\<close>

text \<open>
  One row of the frame \<open>_build_time_features\<close> returns: the observation with its lag
  columns. The calendar columns (\<open>day_of_year\<close>, \<open>week_of_year\<close>, \<open>month\<close>,
  \<open>days_since_epoch\<close>) are functions of the row's \<open>RunDate\<close>.
\<close>

record time_row =
  obs :: product
  prev_price :: "rat option"
  price_change :: "rat option"
  rolling_mean :: rat

text \<open>
  \<open>_build_time_features\<close>: drop the rows without a date, sort by \<open>Sku\<close> and
  \<open>RunDate\<close>, and per \<open>Sku\<close> take the previous price (\<open>shift(1)\<close>), the change and
  the mean of the last three prices (\<open>rolling(3, min_periods=1)\<close>).
\<close>

definition build_time_features :: "product list \<Rightarrow> time_row list" where
  "build_time_features df =
     (let dated = List.map_filter (\<lambda>r. map_option (\<lambda>d. (d, r)) (RunDate r)) df;
          df = map snd (sort_key (\<lambda>p. Sku (snd p)) (sort_key fst dated))
      in map (\<lambda>i. let grp = filter (\<lambda>r. Sku r = Sku (df ! i)) (take (Suc i) df);
                      prices = map Package_price grp;
                      prev = (if 2 \<le> length prices then Some (prices ! (length prices - 2)) else None);
                      window = drop (length prices - 3) prices
                  in \<lparr> obs = df ! i, prev_price = prev,
                       price_change = map_option (\<lambda>p. Package_price (df ! i) - p) prev,
                       rolling_mean = sum_list window / of_nat (length window) \<rparr>)
             [0..<length df])"

text \<open>
  The predictor's state. \<open>model\<close> stands for the fitted scaler and Ridge regression applied
  to the feature columns of one time row (with \<open>fillna(0)\<close>); it is opaque.
\<close>

record PricePredictor =
  model :: "time_row \<Rightarrow> rat"
  is_trained :: bool
  min_history :: nat

text \<open>The dictionary \<open>predict_next_price\<close> returns; the fallback has no \<open>price_change\<close> key.\<close>

record forecast =
  sku :: string
  predicted_price :: rat
  last_known_price :: rat
  price_change :: "rat option"
  trend :: string
  confidence :: string

text \<open>\<open>NotFound s\<close> is the dictionary \<open>{"error": "Sku 's' not found"}\<close>.\<close>

datatype prediction = NotFound string | Forecast forecast

definition predict_next_price :: "PricePredictor \<Rightarrow> string \<Rightarrow> product list \<Rightarrow> error + prediction" where
  "predict_next_price self sku_id df =
     (let sku_df = filter (\<lambda>r. Sku r = sku_id) df
      in if sku_df = [] then Inr (NotFound sku_id)
         else
           let last_known = Package_price (last sku_df)
           in if length sku_df < min_history self \<or> \<not> is_trained self
              then Inr (Forecast \<lparr> sku = sku_id, predicted_price = last_known,
                                   last_known_price = last_known, price_change = None,
                                   trend = ''stable'', confidence = ''low'' \<rparr>)
              else
                let sku_df = build_time_features sku_df
                in if sku_df = [] then Inl ValueError
                   else
                     let X = last sku_df;
                         predicted = max (model self X) (1 / 10);
                         change = predicted - last_known;
                         trend = (if 1 / 5 < change then ''rising''
                                  else if change < - (1 / 5) then ''falling'' else ''stable'')
                     in Inr (Forecast \<lparr> sku = sku_id, predicted_price = round_dec 2 predicted,
                                          last_known_price = round_dec 2 last_known,
                                          price_change = Some (round_dec 2 change),
                                          trend = trend,
                                          confidence = (if 5 \<le> length sku_df then ''medium'' else ''low'') \<rparr>))"

text \<open>The predictor as \<open>__init__\<close> leaves it, for a given (unfitted) regression.\<close>

definition new_predictor :: "(time_row \<Rightarrow> rat) \<Rightarrow> PricePredictor" where
  "new_predictor m = \<lparr> model = m, is_trained = False, min_history = 3 \<rparr>"

section \<open>BudgetRanker\<close>

text \<open>
  The trained LightGBM booster is opaque: a function from a feature vector to a raw score.
  \<open>model = None\<close> is the untrained ranker.
\<close>

record BudgetRanker =
  model :: "(rat list \<Rightarrow> rat) option"

text \<open>\<open>df[self.feature_names].fillna(0)\<close>, one row, in the order of \<open>MODEL_FEATURES\<close>.\<close>

definition feature_row :: "product \<Rightarrow> rat list" where
  "feature_row r =
     [fillna 0 (log_price_per_100g r), fillna 0 (log_package_price r),
      fillna 0 (discount_pct r), fillna 0 (value_score r),
      of_int (is_special r), of_int (is_budget_brand r), of_int (is_estimated r),
      fillna 0 (availability_score r),
      of_int (category_code r), of_int (sub_category_code r), of_int (state_code r)]"

definition predict_scores :: "(rat list \<Rightarrow> rat) \<Rightarrow> product list \<Rightarrow> rat list" where
  "predict_scores m df = map (\<lambda>r. m (feature_row r)) df"

text \<open>The column \<open>_total_score\<close> that \<open>rank_products\<close> computes for the surviving candidates.\<close>

definition total_score :: "BudgetRanker \<Rightarrow> bool \<Rightarrow> product list \<Rightarrow> rat option list" where
  "total_score self has_ss candidates =
     (case model self of
        Some m \<Rightarrow>
          (let raw_scores = predict_scores m candidates
           in if has_ss
              then map2 (\<lambda>x r. nan_add (Some x) (nan_mul (search_score r) 5)) raw_scores candidates
              else map Some raw_scores)
      | None \<Rightarrow>
          (let rule = map (\<lambda>r. Some (fillna 0 (value_score r) + fillna 0 (discount_pct r))) candidates
           in if has_ss
              then map2 (\<lambda>t r. nan_add t (nan_mul (search_score r) 5)) rule candidates
              else rule))"

definition rank_products :: "BudgetRanker \<Rightarrow> DataFrame \<Rightarrow> rat \<Rightarrow> int \<Rightarrow> product list" where
  "rank_products self df budget top_n =
     (let candidates = filter (\<lambda>r. Package_price r \<le> budget) (rows df)
      in if candidates = [] then []
         else
           let candidates =
                 (if has_search_score df
                  then filter (\<lambda>r. nan_gt (search_score r) (1 / 100)) candidates
                  else candidates)
           in if has_search_score df \<and> candidates = [] then []
              else map fst (head top_n (sort_values_desc
                     (zip candidates (total_score self (has_search_score df) candidates)))))"

text \<open>
  \<open>train\<close> keeps the rows with a price per unit and a value score
  (\<open>dropna(subset=["price_per_100g", "value_score"])\<close>) before it builds the labels.
\<close>

definition dropna_train :: "product list \<Rightarrow> product list" where
  "dropna_train df = filter (\<lambda>r. price_per_100g r \<noteq> None \<and> value_score r \<noteq> None) df"

definition MAX_LABEL :: int where
  "MAX_LABEL = 30"

text \<open>
  \<open>rank(method="first", ascending=True)\<close> on the value scores of one group: a value's rank
  is one more than the number of smaller values and of equal values before it; NaN keeps
  rank NaN.
\<close>

definition rank_first :: "rat option list \<Rightarrow> rat option list" where
  "rank_first vs =
     map (\<lambda>i. case vs ! i of
                None \<Rightarrow> None
              | Some v \<Rightarrow>
                  Some (of_nat (Suc (length
                    (filter (\<lambda>j. case vs ! j of None \<Rightarrow> False
                                  | Some w \<Rightarrow> w < v \<or> (w = v \<and> j < i))
                       [0..<length vs])))))
         [0..<length vs]"

text \<open>
  \<open>scale_group\<close> on the ranks of one group. \<open>min\<close> and \<open>max\<close> skip NaN; a NaN that reaches
  \<open>astype(int)\<close> raises.
\<close>

definition scale_group :: "rat option list \<Rightarrow> error + int list" where
  "scale_group grp =
     (let present = List.map_filter id grp
      in if present \<noteq> [] \<and> Max (set present) = Min (set present)
         then Inr (replicate (length grp) 0)
         else if length present \<noteq> length grp then Inl ValueError
         else
           let mn = Min (set present); mx = Max (set present)
           in Inr (map (\<lambda>x. round_half_even ((x - mn) / (mx - mn) * of_int MAX_LABEL)) present))"

definition clip :: "int \<Rightarrow> int \<Rightarrow> int \<Rightarrow> int" where
  "clip lo hi x = min (max x lo) hi"

text \<open>The first error of a list of results, or all the values.\<close>

fun collect :: "(error + 'a) list \<Rightarrow> error + 'a list" where
  "collect [] = Inr []"
| "collect (Inl e # rs) = Inl e"
| "collect (Inr x # rs) = (case collect rs of Inl e \<Rightarrow> Inl e | Inr xs \<Rightarrow> Inr (x # xs))"

text \<open>
  The rows of one sub-category with their relevance label: rank by value score, rescale,
  clip to \<open>0..MAX_LABEL\<close>.
\<close>

definition label_group :: "product list \<Rightarrow> error + (product \<times> int) list" where
  "label_group g =
     (case scale_group (rank_first (map value_score g)) of
        Inl e \<Rightarrow> Inl e
      | Inr relevance \<Rightarrow> Inr (zip g (map (clip 0 MAX_LABEL) relevance)))"

text \<open>
  The frame sorted by \<open>Sub_category\<close> (a stable sort stands for pandas' default), cut into
  its sub-category groups in order of appearance.
\<close>

definition groupby_sub_category :: "product list \<Rightarrow> product list list" where
  "groupby_sub_category df =
     (let df = sort_key Sub_category df
      in map (\<lambda>k. filter (\<lambda>r. Sub_category r = k) df) (remdups (map Sub_category df)))"

definition labelled_groups :: "product list \<Rightarrow> error + (product \<times> int) list list" where
  "labelled_groups df = collect (map label_group (groupby_sub_category df))"

text \<open>
  \<open>_build_groups_and_labels\<close>: the sorted frame with its \<open>relevance\<close> column, and the group
  sizes in the same order.
\<close>

definition build_groups_and_labels :: "product list \<Rightarrow> error + (product \<times> int) list \<times> nat list" where
  "build_groups_and_labels df =
     (case labelled_groups df of
        Inl e \<Rightarrow> Inl e
      | Inr lgs \<Rightarrow> Inr (concat lgs, map length (groupby_sub_category df)))"

section \<open>ProductSearchIndex\<close>

text \<open>
  The index state. \<open>index\<close> stands for the sentence encoder with the FAISS index:
  \<open>index q k\<close> is what \<open>self.index.search(encode(q), k)\<close> returns, the scores and the
  positions of the first result row, or the exception it raises. \<open>tfidf\<close> stands for the
  fitted vectorizer with its matrix: \<open>tfidf q\<close> is the flattened cosine similarity of the
  query with every row of the matrix. \<open>None\<close> means the attribute was never set.
\<close>

record ProductSearchIndex =
  index :: "(string \<Rightarrow> int \<Rightarrow> error + rat list \<times> int list) option"
  product_df :: "product list"
  use_faiss :: bool
  tfidf :: "(string \<Rightarrow> rat list) option"

text \<open>
  \<open>df.iloc[positions]\<close>: a negative position counts from the end, a position out of range
  raises \<open>IndexError\<close>.
\<close>

definition iloc :: "'a list \<Rightarrow> int list \<Rightarrow> error + 'a list" where
  "iloc df positions =
     (let n = int (length df)
      in if list_all (\<lambda>i. - n \<le> i \<and> i < n) positions
         then Inr (map (\<lambda>i. df ! nat (if i < 0 then i + n else i)) positions)
         else Inl IndexError)"

text \<open>
  \<open>scores.argsort()\<close>: the positions in ascending order of score (a stable sort stands for
  numpy's default, which leaves the order of equal scores open).
\<close>

definition argsort :: "rat list \<Rightarrow> nat list" where
  "argsort scores = sort_key (\<lambda>i. scores ! i) [0..<length scores]"

definition search_faiss ::
  "(string \<Rightarrow> int \<Rightarrow> error + rat list \<times> int list) \<Rightarrow> product list \<Rightarrow> string \<Rightarrow> int \<Rightarrow> error + DataFrame" where
  "search_faiss ix df query top_k =
     (case ix query top_k of
        Inl e \<Rightarrow> Inl e
      | Inr (scores, indices) \<Rightarrow>
          (case iloc df indices of
             Inl e \<Rightarrow> Inl e
           | Inr result \<Rightarrow>
               if length scores \<noteq> length result then Inl ValueError
               else Inr \<lparr> has_search_score = True,
                          rows = map2 (\<lambda>r s. r \<lparr> search_score := Some s \<rparr>) result scores \<rparr>))"

definition search_tfidf ::
  "(string \<Rightarrow> rat list) \<Rightarrow> product list \<Rightarrow> string \<Rightarrow> int \<Rightarrow> error + DataFrame" where
  "search_tfidf tf df query top_k =
     (let scores = tf query;
          top_idx = head top_k (rev (argsort scores))
      in case iloc df (map int top_idx) of
           Inl e \<Rightarrow> Inl e
         | Inr result \<Rightarrow>
             Inr \<lparr> has_search_score = True,
                    rows = map2 (\<lambda>r i. r \<lparr> search_score := Some (scores ! i) \<rparr>) result top_idx \<rparr>)"

definition search :: "ProductSearchIndex \<Rightarrow> string \<Rightarrow> int \<Rightarrow> error + DataFrame" where
  "search self query top_k =
     (case (if use_faiss self then index self else None) of
        Some ix \<Rightarrow> search_faiss ix (product_df self) query top_k
      | None \<Rightarrow>
          (case tfidf self of
             Some tf \<Rightarrow> search_tfidf tf (product_df self) query top_k
           | None \<Rightarrow> Inl RuntimeError))"

text \<open>
  What the FAISS library promises for a flat inner-product index: a search with \<open>k > 0\<close>
  returns \<open>k\<close> scores in descending order with \<open>k\<close> positions (a search with
  \<open>k \<le> 0\<close> fails an assertion).
\<close>

definition faiss_contract :: "ProductSearchIndex \<Rightarrow> bool" where
  "faiss_contract self =
     (\<forall>ix q k scores indices.
        index self = Some ix \<and> ix q k = Inr (scores, indices)
        \<longrightarrow> 0 < k \<and> length scores = nat k \<and> length indices = nat k
            \<and> sorted_wrt (\<lambda>a b. b \<le> a) scores)"

section \<open>InferencePipeline\<close>

record InferencePipeline =
  ranker :: BudgetRanker
  search_index :: ProductSearchIndex
  full_df :: "product list"

text \<open>\<open>str.lower\<close> and \<open>str.upper\<close>, on the ASCII letters.\<close>

definition lower :: "string \<Rightarrow> string" where
  "lower s = map (\<lambda>c. let n = (of_char c :: nat) in if 65 \<le> n \<and> n \<le> 90 then char_of (n + 32) else c) s"

definition upper :: "string \<Rightarrow> string" where
  "upper s = map (\<lambda>c. let n = (of_char c :: nat) in if 97 \<le> n \<and> n \<le> 122 then char_of (n - 32) else c) s"

text \<open>\<open>df[mask]\<close>: the rows whose mask entry is true.\<close>

definition select_rows :: "DataFrame \<Rightarrow> bool list \<Rightarrow> DataFrame" where
  "select_rows df keep = df \<lparr> rows := map fst (filter snd (zip (rows df) keep)) \<rparr>"

text \<open>
  Step 2 of \<open>recommend\<close>, the soft location filter. \<open>if city:\<close> is false for
  \<open>None\<close> and for the empty string. Each mask is applied only when it selects at least
  one row (\<open>mask.sum() > 0\<close>), the state mask on the frame the city step left.
\<close>

definition location_filter :: "string option \<Rightarrow> string option \<Rightarrow> DataFrame \<Rightarrow> DataFrame" where
  "location_filter req_city req_state candidates =
     (let candidates =
            (case req_city of
               None \<Rightarrow> candidates
             | Some c \<Rightarrow>
                 if c = [] then candidates
                 else
                   let city_match = map (\<lambda>r. lower (city r) = lower c) (rows candidates)
                   in if 0 < length (filter id city_match)
                      then select_rows candidates city_match else candidates)
      in case req_state of
           None \<Rightarrow> candidates
         | Some s \<Rightarrow>
             if s = [] then candidates
             else
               let state_match = map (\<lambda>r. upper (state r) = upper s) (rows candidates)
               in if 0 < length (filter id state_match)
                  then select_rows candidates state_match else candidates)"

text \<open>
  Step 4 of \<open>recommend\<close>: keep the output columns, round the three money columns to two
  decimals, and turn the discount fraction into a percentage with one decimal.
\<close>

definition format_record :: "product \<Rightarrow> output_columns" where
  "format_record r =
     (output_columns.truncate r)
       \<lparr> Package_price := round_dec 2 (Package_price r),
         price_per_100g := map_option (round_dec 2) (price_per_100g r),
         discount_pct := map_option (\<lambda>d. round_dec 1 (d * 100)) (discount_pct r),
         value_score := map_option (round_dec 2) (value_score r) \<rparr>"

definition recommend ::
  "InferencePipeline \<Rightarrow> string \<Rightarrow> rat \<Rightarrow> string option \<Rightarrow> string option \<Rightarrow> int
     \<Rightarrow> error + output_columns list" where
  "recommend self query budget req_city req_state top_n =
     (case search (search_index self) query 50 of
        Inl e \<Rightarrow> Inl e
      | Inr candidates \<Rightarrow>
          if rows candidates = [] then Inr []
          else
            let candidates = location_filter req_city req_state candidates;
                ranked = rank_products (ranker self) candidates budget top_n
            in if ranked = [] then Inr [] else Inr (map format_record ranked))"

section \<open>Basket recommendation endpoint\<close>

record BasketItem =
  query :: string
  best_match :: "output_columns option"
  alternatives :: "output_columns list"
  estimated_cost :: rat

record RecommendResponse =
  total_budget :: rat
  estimated_total :: rat
  within_budget :: bool
  basket :: "BasketItem list"

text \<open>
  One invocation of \<open>pipeline.recommend\<close>: query, budget, city, state and \<open>top_n\<close>. The
  endpoint is modelled with the list of the invocations it makes, in order, next to its
  response.
\<close>

type_synonym call = "string \<times> rat \<times> string option \<times> string option \<times> int"

text \<open>
  The body of the loop over \<open>request.items\<close>: the line for one item and the invocations
  made for it.
\<close>

definition basket_line ::
  "InferencePipeline \<Rightarrow> RecommendRequest \<Rightarrow> rat \<Rightarrow> string \<Rightarrow> error + BasketItem \<times> call list" where
  "basket_line pipeline request per_item_budget item_query =
     (let c = RecommendRequest.city request;
          s = RecommendRequest.state request;
          full = RecommendRequest.total_budget request
      in case recommend pipeline item_query per_item_budget c s 3 of
           Inl e \<Rightarrow> Inl e
         | Inr results \<Rightarrow>
             (case (if results = []
                    then (recommend pipeline item_query full c s 3,
                          [(item_query, per_item_budget, c, s, 3), (item_query, full, c, s, 3)])
                    else (Inr results, [(item_query, per_item_budget, c, s, 3)])) of
                (Inl e, made) \<Rightarrow> Inl e
              | (Inr results, made) \<Rightarrow>
                  (case results of
                     best # rest \<Rightarrow>
                       Inr (\<lparr> query = item_query, best_match = Some best, alternatives = rest,
                              estimated_cost = Package_price best \<rparr>, made)
                   | [] \<Rightarrow>
                       Inr (\<lparr> query = item_query, best_match = None, alternatives = [],
                              estimated_cost = 0 \<rparr>, made))))"

text \<open>The loop, with the basket, the running total and the invocations so far as its state.\<close>

fun basket_loop ::
  "InferencePipeline \<Rightarrow> RecommendRequest \<Rightarrow> rat \<Rightarrow> string list
     \<Rightarrow> BasketItem list \<times> rat \<times> call list \<Rightarrow> error + BasketItem list \<times> rat \<times> call list" where
  "basket_loop pipeline request per_item_budget [] st = Inr st"
| "basket_loop pipeline request per_item_budget (item_query # rest) (lines, subtotal, calls) =
     (case basket_line pipeline request per_item_budget item_query of
        Inl e \<Rightarrow> Inl e
      | Inr (line, made) \<Rightarrow>
          basket_loop pipeline request per_item_budget rest
            (lines @ [line], subtotal + estimated_cost line, calls @ made))"

definition recommend_basket ::
  "InferencePipeline \<Rightarrow> RecommendRequest \<Rightarrow> error + RecommendResponse \<times> call list" where
  "recommend_basket pipeline request =
     (let n_items = length (items request)
      in if n_items = 0 then Inl (HTTPException 400)
         else
           let per_item_budget = RecommendRequest.total_budget request / of_nat n_items
           in case basket_loop pipeline request per_item_budget (items request) ([], 0, []) of
                Inl e \<Rightarrow> Inl e
              | Inr (lines, subtotal, calls) \<Rightarrow>
                  Inr (\<lparr> total_budget = RecommendRequest.total_budget request,
                         estimated_total = round_dec 2 subtotal,
                         within_budget = (subtotal \<le> RecommendRequest.total_budget request),
                         basket = lines \<rparr>, calls))"

section \<open>Example data\<close>

text \<open>The four products of the ranker's test fixture.\<close>

definition sample_row :: "string \<Rightarrow> string \<Rightarrow> rat \<Rightarrow> rat \<Rightarrow> rat \<Rightarrow> rat \<Rightarrow> rat option \<Rightarrow> product" where
  "sample_row name sub price per100 val disc ss =
     \<lparr> Product_Name = name, Brand = ''Coles'', Sub_category = sub, Package_price = price,
       price_per_100g = Some per100, discount_pct = Some disc, value_score = Some val,
       is_special = 0, in_stock = 1, city = ''Sydney'', state = ''Nsw'', Product_Url = None,
       Sku = name, RunDate = Some 0, log_price_per_100g = None, log_package_price = None,
       is_budget_brand = 0, is_estimated = 0, availability_score = Some 1,
       category_code = 0, sub_category_code = 0, state_code = 0, search_score = ss \<rparr>"

definition sample_products :: "product list" where
  "sample_products =
     [sample_row ''Cheap Chicken'' ''Poultry'' 5 (1 / 2) 2 0 None,
      sample_row ''Mid Chicken'' ''Poultry'' 10 1 1 (1 / 10) None,
      sample_row ''Expensive Chicken'' ''Poultry'' 20 2 (1 / 2) (1 / 20) None,
      sample_row ''Fish'' ''Seafood'' 8 (4 / 5) (5 / 4) (3 / 20) None]"

definition sample_frame :: DataFrame where
  "sample_frame = \<lparr> has_search_score = False, rows = sample_products \<rparr>"

definition untrained :: BudgetRanker where
  "untrained = \<lparr> model = None \<rparr>"

text \<open>The same products as retrieval would return them, with a \<open>search_score\<close> column.\<close>

definition scored_products :: "product list" where
  "scored_products =
     [sample_row ''Cheap Chicken'' ''Poultry'' 5 (1 / 2) 2 0 (Some (1 / 2)),
      sample_row ''Mid Chicken'' ''Poultry'' 10 1 1 (1 / 10) (Some (1 / 2)),
      sample_row ''Expensive Chicken'' ''Poultry'' 20 2 (1 / 2) (1 / 20) (Some (9 / 10)),
      sample_row ''Fish'' ''Seafood'' 8 (4 / 5) (5 / 4) (3 / 20) (Some (1 / 200))]"

definition scored_frame :: DataFrame where
  "scored_frame = \<lparr> has_search_score = True, rows = scored_products \<rparr>"

text \<open>Training rows: three sub-categories, and ten rows that share one value score.\<close>

definition train_sample :: "product list" where
  "train_sample =
     [sample_row ''Thighs'' ''Poultry'' 5 (1 / 2) 1 0 None,
      sample_row ''Hake'' ''Fish'' 8 (4 / 5) 2 0 None,
      sample_row ''Breast'' ''Poultry'' 9 1 3 0 None,
      sample_row ''Wings'' ''Poultry'' 4 (1 / 2) 2 0 None,
      sample_row ''Whole Bird'' ''Poultry'' 12 (2 / 5) 5 0 None,
      sample_row ''Drumsticks'' ''Poultry'' 6 (1 / 2) 4 0 None,
      sample_row ''Eggs 6'' ''Eggs'' 3 (1 / 2) 1 0 None]"

definition tied_products :: "product list" where
  "tied_products =
     map (\<lambda>name. sample_row name ''Poultry'' 5 (1 / 2) 1 0 None)
       [''P0'', ''P1'', ''P2'', ''P3'', ''P4'', ''P5'', ''P6'', ''P7'', ''P8'', ''P9'']"

text \<open>A price history: two observations of one identifier among other products.\<close>

definition price_history :: "product list" where
  "price_history =
     [(sample_row ''A001'' ''Poultry'' (13 / 2) 1 1 0 None) \<lparr> RunDate := Some 1 \<rparr>,
      (sample_row ''A002'' ''Milk'' 3 1 1 0 None) \<lparr> RunDate := Some 1 \<rparr>,
      (sample_row ''A001'' ''Poultry'' 7 1 1 0 None) \<lparr> RunDate := Some 8 \<rparr>]"

text \<open>
  A catalog of the four fixture products and a carton of milk, a lexical index over it with
  fixed similarities for three queries, and a pipeline with the untrained ranker on top.
\<close>

definition catalog :: "product list" where
  "catalog =
     sample_products @
     [(sample_row ''Milk 2L'' ''Milk'' (349 / 100) (437 / 2500) (14167 / 10000) (617 / 5000) None)
        \<lparr> city := ''Melbourne'', state := ''Vic'' \<rparr>]"

definition lexical_index :: ProductSearchIndex where
  "lexical_index =
     \<lparr> index = None, product_df = catalog, use_faiss = False,
       tfidf = Some (\<lambda>q. if q = ''chicken'' then [4 / 5, 7 / 10, 3 / 5, 0, 0]
                          else if q = ''milk'' then [0, 0, 0, 0, 9 / 10]
                          else [0, 0, 0, 0, 0]) \<rparr>"

text \<open>
  A semantic index whose library search returns two hits and pads the rest with position
  \<open>-1\<close>, as FAISS does when \<open>k\<close> exceeds the number of hits.
\<close>

definition semantic_index :: ProductSearchIndex where
  "semantic_index =
     \<lparr> index = Some (\<lambda>q k. if k \<le> 0 then Inl AssertionError
                            else Inr (take (nat k) ([9 / 10, 1 / 2] @ replicate (nat k) (- 1000)),
                                      take (nat k) ([1, 0] @ replicate (nat k) (- 1)))),
       product_df = catalog, use_faiss = True, tfidf = None \<rparr>"

definition sample_pipeline :: InferencePipeline where
  "sample_pipeline =
     \<lparr> ranker = untrained, search_index = lexical_index, full_df = catalog \<rparr>"

text \<open>The whole catalog as a retrieval result.\<close>

definition catalog_frame :: DataFrame where
  "catalog_frame = \<lparr> has_search_score = True, rows = map (\<lambda>r. r \<lparr> search_score := Some (1 / 2) \<rparr>) catalog \<rparr>"

text \<open>Two basket requests; the second leaves less per item than any chicken costs.\<close>

definition basket_request :: RecommendRequest where
  "basket_request = \<lparr> items = [''chicken'', ''milk'', ''bread''], total_budget = 12, city = None, state = None \<rparr>"

definition tight_request :: RecommendRequest where
  "tight_request = \<lparr> items = [''chicken'', ''chicken''], total_budget = 8, city = None, state = None \<rparr>"

section \<open>Auxiliary notions\<close>

text \<open>The rule-based score of one row, as the untrained ranker computes it.\<close>

definition rule_score :: "bool \<Rightarrow> product \<Rightarrow> rat option" where
  "rule_score has_ss r =
     (let t = Some (fillna 0 (value_score r) + fillna 0 (discount_pct r))
      in if has_ss then nan_add t (nan_mul (search_score r) 5) else t)"

text \<open>Two scored rows are in descending order when their scores, where both are numbers, are.\<close>

definition desc_rel :: "('a \<times> rat option) \<Rightarrow> ('a \<times> rat option) \<Rightarrow> bool" where
  "desc_rel p q = (\<forall>x y. snd p = Some x \<longrightarrow> snd q = Some y \<longrightarrow> y \<le> x)"

text \<open>
  The rank that \<open>rank_first\<close> gives position \<open>i\<close> of a group without NaN, and the
  rescaling of one rank within the ranks \<open>rs\<close> of its group.
\<close>

definition rank_nat :: "rat list \<Rightarrow> nat \<Rightarrow> nat" where
  "rank_nat vs i =
     Suc (length (filter (\<lambda>j. vs ! j < vs ! i \<or> (vs ! j = vs ! i \<and> j < i)) [0..<length vs]))"

definition scaled :: "rat list \<Rightarrow> rat \<Rightarrow> int" where
  "scaled rs x =
     round_half_even ((x - Min (set rs)) / (Max (set rs) - Min (set rs)) * of_int MAX_LABEL)"

text \<open>The three properties of the labels of one group.\<close>

definition labels_ok :: "(product \<times> int) list \<Rightarrow> bool" where
  "labels_ok lg =
     ((\<forall>i < length lg. 0 \<le> snd (lg ! i) \<and> snd (lg ! i) \<le> MAX_LABEL)
      \<and> (\<forall>i < length lg. \<forall>j < length lg. \<forall>v w.
            value_score (fst (lg ! i)) = Some v \<and> value_score (fst (lg ! j)) = Some w \<and> v < w
            \<longrightarrow> snd (lg ! i) \<le> snd (lg ! j))
      \<and> (length lg = 1 \<longrightarrow> snd (lg ! 0) = 0))"

text \<open>A catalog row matches the requested city (state), when one is requested.\<close>

definition city_matches :: "string option \<Rightarrow> product \<Rightarrow> bool" where
  "city_matches req_city r =
     (case req_city of None \<Rightarrow> False | Some c \<Rightarrow> c \<noteq> [] \<and> lower (city r) = lower c)"

definition state_matches :: "string option \<Rightarrow> product \<Rightarrow> bool" where
  "state_matches req_state r =
     (case req_state of None \<Rightarrow> False | Some s \<Rightarrow> s \<noteq> [] \<and> upper (state r) = upper s)"

text \<open>A filter that is applied only when it keeps at least one row.\<close>

definition soft_filter :: "(product \<Rightarrow> bool) \<Rightarrow> product list \<Rightarrow> product list" where
  "soft_filter P xs = (if \<exists>r \<in> set xs. P r then filter P xs else xs)"

text \<open>An amount with at most two decimals.\<close>

definition hundredths :: "rat \<Rightarrow> bool" where
  "hundredths x = (\<exists>z::int. x = of_int z / 100)"

section \<open>Properties of the ranker\<close>

lemma set_head_subset: "set (head n xs) \<subseteq> set xs"
  by (auto simp: head_def dest: in_set_takeD)

lemma head_take: "\<exists>m. head n xs = take m xs"
  by (auto simp: head_def)

lemma set_sort_values_desc: "set (sort_values_desc xs) = set xs"
  by (auto simp: sort_values_desc_def Let_def)

lemma ranked_subset:
  "r \<in> set (map fst (head n (sort_values_desc (zip cs ts)))) \<Longrightarrow> r \<in> set cs"
proof -
  assume "r \<in> set (map fst (head n (sort_values_desc (zip cs ts))))"
  then obtain t where "(r, t) \<in> set (head n (sort_values_desc (zip cs ts)))" by auto
  then have "(r, t) \<in> set (zip cs ts)"
    using set_head_subset [of n "sort_values_desc (zip cs ts)"]
    by (auto simp: set_sort_values_desc)
  then show "r \<in> set cs" by (rule set_zip_leftD)
qed

lemma rank_products_subset:
  "set (rank_products self df b n) \<subseteq> {r \<in> set (rows df). Package_price r \<le> b}"
proof
  fix r assume r: "r \<in> set (rank_products self df b n)"
  let ?c1 = "filter (\<lambda>r. Package_price r \<le> b) (rows df)"
  let ?c2 = "if has_search_score df then filter (\<lambda>r. nan_gt (search_score r) (1 / 100)) ?c1 else ?c1"
  from r have "r \<in> set (map fst (head n (sort_values_desc (zip ?c2 (total_score self (has_search_score df) ?c2)))))"
    unfolding rank_products_def Let_def by (simp split: if_splits)
  then have "r \<in> set ?c2" by (rule ranked_subset)
  then show "r \<in> {r \<in> set (rows df). Package_price r \<le> b}" by (simp split: if_splits)
qed

lemma rank_products_guard:
  "has_search_score df \<Longrightarrow> r \<in> set (rank_products self df b n) \<Longrightarrow> nan_gt (search_score r) (1 / 100)"
proof -
  assume h: "has_search_score df" and r: "r \<in> set (rank_products self df b n)"
  let ?c1 = "filter (\<lambda>r. Package_price r \<le> b) (rows df)"
  let ?c2 = "filter (\<lambda>r. nan_gt (search_score r) (1 / 100)) ?c1"
  from r h have "r \<in> set (map fst (head n (sort_values_desc (zip ?c2 (total_score self True ?c2)))))"
    unfolding rank_products_def Let_def by (simp split: if_splits)
  then have "r \<in> set ?c2" by (rule ranked_subset)
  then show ?thesis by simp
qed

text \<open>
  C1: every row \<open>rank_products\<close> returns has a package price of at most the budget, for any
  ranker state, frame, budget and \<open>top_n\<close>; when no candidate is within budget the result
  is the empty list (the function is total: it returns a list, it raises nothing).
\<close>

theorem rank_products_within_budget:
  "(\<forall>r \<in> set (rank_products self df b n). Package_price r \<le> b) \<and>
   ((\<forall>c \<in> set (rows df). \<not> Package_price c \<le> b) \<longrightarrow> rank_products self df b n = [])"
proof
  show "\<forall>r \<in> set (rank_products self df b n). Package_price r \<le> b"
    using rank_products_subset [of self df b n] by auto
  show "(\<forall>c \<in> set (rows df). \<not> Package_price c \<le> b) \<longrightarrow> rank_products self df b n = []"
    using rank_products_subset [of self df b n] by (cases "rank_products self df b n") auto
qed

theorem rank_products_within_budget_witness:
  "list_all (\<lambda>r. Package_price r \<le> 10) (rank_products untrained sample_frame 10 10)
   \<and> map Product_Name (rank_products untrained sample_frame 10 10)
       = [''Cheap Chicken'', ''Fish'', ''Mid Chicken'']
   \<and> rank_products untrained sample_frame 1 10 = []"
proof -
  have names: "map Product_Name (rank_products untrained sample_frame 10 10)
                 = [''Cheap Chicken'', ''Fish'', ''Mid Chicken'']"
    by code_simp
  have none: "\<forall>c \<in> set (rows sample_frame). \<not> Package_price c \<le> 1"
    by code_simp
  from rank_products_within_budget [of untrained sample_frame 10 10]
  have "list_all (\<lambda>r. Package_price r \<le> 10) (rank_products untrained sample_frame 10 10)"
    by (simp add: list_all_iff)
  moreover from rank_products_within_budget [of untrained sample_frame 1 10] none
  have "rank_products untrained sample_frame 1 10 = []" by blast
  ultimately show ?thesis using names by simp
qed

lemma map2_same: "map2 f (map g xs) xs = map (\<lambda>x. f (g x) x) xs"
  by (induction xs) auto

lemma total_score_untrained:
  "model self = None \<Longrightarrow> total_score self h cs = map (rule_score h) cs"
  by (simp add: total_score_def rule_score_def Let_def map2_same)

lemma sorted_wrt_rev_sort_key:
  "sorted_wrt (\<lambda>p q. k q \<le> k p) (rev (sort_key k xs))"
proof -
  have "sorted (map k (sort_key k xs))" by simp
  then have "sorted_wrt (\<lambda>p q. k p \<le> k q) (sort_key k xs)"
    by (simp add: sorted_map)
  then show ?thesis by (simp add: sorted_wrt_rev)
qed

lemma sorted_wrt_sort_values_desc: "sorted_wrt desc_rel (sort_values_desc xs)"
proof -
  let ?k = "\<lambda>p :: 'a \<times> rat option. fillna 0 (snd p)"
  let ?a = "rev (sort_key ?k (rev (filter (\<lambda>p. snd p \<noteq> None) xs)))"
  let ?b = "filter (\<lambda>p. snd p = None) xs"
  have "sorted_wrt (\<lambda>p q. ?k q \<le> ?k p) ?a" by (rule sorted_wrt_rev_sort_key)
  then have a: "sorted_wrt desc_rel ?a"
    by (rule sorted_wrt_mono_rel [rotated]) (auto simp: desc_rel_def fillna_def)
  have b: "sorted_wrt desc_rel ?b"
    by (rule sorted_wrt_mono_rel [of _ "\<lambda>p q. True"]) (auto simp: desc_rel_def)
  have "\<forall>p \<in> set ?a. \<forall>q \<in> set ?b. desc_rel p q" by (auto simp: desc_rel_def)
  with a b show ?thesis
    unfolding sort_values_desc_def Let_def by (simp add: sorted_wrt_append)
qed

lemma rank_products_shape:
  assumes "rank_products self df b n \<noteq> []"
  shows "\<exists>m cs. set cs \<subseteq> {r \<in> set (rows df). Package_price r \<le> b}
           \<and> (has_search_score df \<longrightarrow> (\<forall>r \<in> set cs. nan_gt (search_score r) (1 / 100)))
           \<and> {r \<in> set (rows df). Package_price r \<le> b \<and> (has_search_score df \<longrightarrow> nan_gt (search_score r) (1 / 100))} \<subseteq> set cs
           \<and> rank_products self df b n =
               map fst (take m (sort_values_desc (zip cs (total_score self (has_search_score df) cs))))"
proof -
  let ?c1 = "filter (\<lambda>r. Package_price r \<le> b) (rows df)"
  let ?c2 = "if has_search_score df then filter (\<lambda>r. nan_gt (search_score r) (1 / 100)) ?c1 else ?c1"
  let ?ys = "sort_values_desc (zip ?c2 (total_score self (has_search_score df) ?c2))"
  from assms have "rank_products self df b n = map fst (head n ?ys)"
    unfolding rank_products_def Let_def by (simp split: if_splits)
  moreover obtain m where "head n ?ys = take m ?ys" using head_take by blast
  ultimately have "rank_products self df b n = map fst (take m ?ys)" by simp
  moreover have "set ?c2 \<subseteq> {r \<in> set (rows df). Package_price r \<le> b}" by auto
  moreover have "has_search_score df \<longrightarrow> (\<forall>r \<in> set ?c2. nan_gt (search_score r) (1 / 100))" by auto
  moreover have "{r \<in> set (rows df). Package_price r \<le> b \<and> (has_search_score df \<longrightarrow> nan_gt (search_score r) (1 / 100))} \<subseteq> set ?c2" by auto
  ultimately show ?thesis by blast
qed

lemma sorted_prefix_earlier:
  fixes ys :: "('a \<times> rat option) list"
  assumes srt: "sorted_wrt desc_rel ys"
      and j: "j < length (take m ys)"
      and a: "(a, Some x) \<in> set ys"
      and y: "snd (ys ! j) = Some y"
      and lt: "y < x"
  shows "\<exists>i<j. map fst (take m ys) ! i = a"
proof -
  from a obtain ia where ia: "ia < length ys" "ys ! ia = (a, Some x)"
    by (auto simp: in_set_conv_nth)
  from j have jm: "j < m" and jl: "j < length ys" by auto
  have "ia < j"
  proof (rule ccontr)
    assume "\<not> ia < j"
    then consider "ia = j" | "j < ia" by linarith
    then show False
    proof cases
      case 1
      with ia y lt show False by simp
    next
      case 2
      with srt ia(1) have "desc_rel (ys ! j) (ys ! ia)"
        by (simp add: sorted_wrt_iff_nth_less)
      with ia(2) y lt show False by (auto simp: desc_rel_def)
    qed
  qed
  moreover from this jm ia have "map fst (take m ys) ! ia = a" by simp
  ultimately show ?thesis by blast
qed



text \<open>
  C8: on a frame that carries a \<open>search_score\<close> column, every returned row has a
  \<open>search_score\<close> above 0.01, so no within-budget candidate with a score of at most 0.01
  is returned; and when every within-budget candidate has such a score (or NaN), the result
  is the empty list.
\<close>

theorem rank_products_relevance_guard:
  assumes "has_search_score df"
  shows "(\<forall>r \<in> set (rank_products self df b n). \<exists>s. search_score r = Some s \<and> 1 / 100 < s)
       \<and> (\<forall>c \<in> set (rows df). \<forall>s. Package_price c \<le> b \<and> search_score c = Some s \<and> s \<le> 1 / 100
             \<longrightarrow> c \<notin> set (rank_products self df b n))
       \<and> ((\<forall>c \<in> set (rows df). Package_price c \<le> b \<longrightarrow> \<not> nan_gt (search_score c) (1 / 100))
             \<longrightarrow> rank_products self df b n = [])"
proof -
  have guard: "nan_gt (search_score r) (1 / 100)" if "r \<in> set (rank_products self df b n)" for r
    using rank_products_guard [OF assms that] .
  have 1: "\<forall>r \<in> set (rank_products self df b n). \<exists>s. search_score r = Some s \<and> 1 / 100 < s"
  proof
    fix r assume "r \<in> set (rank_products self df b n)"
    from guard [OF this] show "\<exists>s. search_score r = Some s \<and> 1 / 100 < s"
      unfolding nan_gt_def by (cases "search_score r") simp_all
  qed
  have 2: "\<forall>c \<in> set (rows df). \<forall>s. Package_price c \<le> b \<and> search_score c = Some s \<and> s \<le> 1 / 100
             \<longrightarrow> c \<notin> set (rank_products self df b n)"
  proof (intro ballI allI impI)
    fix c :: product and s assume c: "Package_price c \<le> b \<and> search_score c = Some s \<and> s \<le> 1 / 100"
    show "c \<notin> set (rank_products self df b n)"
    proof
      assume "c \<in> set (rank_products self df b n)"
      from guard [OF this] c show False unfolding nan_gt_def by simp
    qed
  qed
  have 3: "(\<forall>c \<in> set (rows df). Package_price c \<le> b \<longrightarrow> \<not> nan_gt (search_score c) (1 / 100))
             \<longrightarrow> rank_products self df b n = []"
  proof
    assume none: "\<forall>c \<in> set (rows df). Package_price c \<le> b \<longrightarrow> \<not> nan_gt (search_score c) (1 / 100)"
    show "rank_products self df b n = []"
    proof (rule ccontr)
      assume "rank_products self df b n \<noteq> []"
      then obtain r where r: "r \<in> set (rank_products self df b n)"
        by (cases "rank_products self df b n") auto
      with rank_products_subset [of self df b n] have "r \<in> set (rows df)" "Package_price r \<le> b"
        by auto
      with none guard [OF r] show False by blast
    qed
  qed
  from 1 2 3 show ?thesis by blast
qed

theorem rank_products_relevance_guard_witness:
  "map Product_Name (rank_products untrained scored_frame 10 10) = [''Cheap Chicken'', ''Mid Chicken'']
   \<and> list_all (\<lambda>r. nan_gt (search_score r) (1 / 100)) (rank_products untrained scored_frame 10 10)
   \<and> scored_products ! 3 \<notin> set (rank_products untrained scored_frame 10 10)
   \<and> rank_products untrained (scored_frame \<lparr> rows := [scored_products ! 3] \<rparr>) 10 10 = []"
proof -
  let ?low = "scored_frame \<lparr> rows := [scored_products ! 3] \<rparr>"
  have h: "has_search_score scored_frame" by code_simp
  have h': "has_search_score ?low" by code_simp
  have names: "map Product_Name (rank_products untrained scored_frame 10 10) = [''Cheap Chicken'', ''Mid Chicken'']"
    by code_simp
  have fish: "scored_products ! 3 \<in> set (rows scored_frame) \<and> Package_price (scored_products ! 3) \<le> 10
                \<and> search_score (scored_products ! 3) = Some (1 / 200) \<and> (1 / 200 :: rat) \<le> 1 / 100"
    by code_simp
  have low: "\<forall>c \<in> set (rows ?low). Package_price c \<le> 10 \<longrightarrow> \<not> nan_gt (search_score c) (1 / 100)"
    by code_simp
  from rank_products_relevance_guard [OF h, where self = untrained and b = 10 and n = 10] fish
  have "(\<forall>r \<in> set (rank_products untrained scored_frame 10 10). \<exists>s. search_score r = Some s \<and> 1 / 100 < s)
        \<and> scored_products ! 3 \<notin> set (rank_products untrained scored_frame 10 10)"
    by blast
  then have "list_all (\<lambda>r. nan_gt (search_score r) (1 / 100)) (rank_products untrained scored_frame 10 10)
        \<and> scored_products ! 3 \<notin> set (rank_products untrained scored_frame 10 10)"
    unfolding list_all_iff nan_gt_def by fastforce
  moreover from rank_products_relevance_guard [OF h', where self = untrained and b = 10 and n = 10] low
  have "rank_products untrained ?low 10 10 = []" by blast
  ultimately show ?thesis using names by blast
qed

section \<open>Properties of the relevance labels\<close>

lemma round_half_even_mono:
  assumes "x \<le> y"
  shows "round_half_even x \<le> round_half_even y"
proof -
  have lo: "\<lfloor>z\<rfloor> \<le> round_half_even z" and hi: "round_half_even z \<le> \<lfloor>z\<rfloor> + 1" for z
    by (simp_all add: round_half_even_def Let_def)
  from assms have "\<lfloor>x\<rfloor> \<le> \<lfloor>y\<rfloor>" by (rule floor_mono)
  then consider "\<lfloor>x\<rfloor> < \<lfloor>y\<rfloor>" | "\<lfloor>x\<rfloor> = \<lfloor>y\<rfloor>" by linarith
  then show ?thesis
  proof cases
    case 1
    with lo [of y] hi [of x] show ?thesis by linarith
  next
    case 2
    with assms have "x - of_int \<lfloor>x\<rfloor> \<le> y - of_int \<lfloor>y\<rfloor>" by simp
    with 2 show ?thesis
      by (auto simp: round_half_even_def Let_def)
  qed
qed

lemma length_filter_mono:
  "(\<And>x. x \<in> set xs \<Longrightarrow> P x \<Longrightarrow> Q x) \<Longrightarrow> length (filter P xs) \<le> length (filter Q xs)"
  by (induction xs) auto

lemma rank_nat_mono:
  assumes "vs ! i < vs ! j"
  shows "rank_nat vs i \<le> rank_nat vs j"
  unfolding rank_nat_def using assms
  by (auto intro!: length_filter_mono)

lemma rank_first_Some:
  "rank_first (map Some vs) = map (\<lambda>i. Some (of_nat (rank_nat vs i))) [0..<length vs]"
  unfolding rank_first_def rank_nat_def
  by (auto intro!: arg_cong [where f = length] filter_cong)

lemma map_filter_id_Some: "List.map_filter id (map Some xs) = xs"
  by (induction xs) (auto simp: List.map_filter_simps)

lemma scale_group_Some:
  "scale_group (map Some rs) =
     Inr (if rs \<noteq> [] \<and> Max (set rs) = Min (set rs) then replicate (length rs) 0
          else map (scaled rs) rs)"
  by (simp add: scale_group_def map_filter_id_Some Let_def scaled_def)

lemma collect_all_Inr:
  "(\<And>x. x \<in> set xs \<Longrightarrow> f x = Inr (h x)) \<Longrightarrow> collect (map f xs) = Inr (map h xs)"
  by (induction xs) auto

lemma scaled_mono:
  assumes "x \<le> y" and "Min (set rs) \<le> Max (set rs)"
  shows "scaled rs x \<le> scaled rs y"
proof -
  from assms have "(x - Min (set rs)) / (Max (set rs) - Min (set rs)) \<le> (y - Min (set rs)) / (Max (set rs) - Min (set rs))"
    by (simp add: divide_right_mono)
  then have "(x - Min (set rs)) / (Max (set rs) - Min (set rs)) * of_int MAX_LABEL
             \<le> (y - Min (set rs)) / (Max (set rs) - Min (set rs)) * of_int MAX_LABEL"
    by (rule mult_right_mono) (simp add: MAX_LABEL_def)
  then show ?thesis unfolding scaled_def by (rule round_half_even_mono)
qed


lemma label_group_Some:
  assumes all: "\<forall>r \<in> set g. value_score r \<noteq> None"
  shows "\<exists>ls. label_group g = Inr (zip g ls) \<and> length ls = length g
            \<and> (\<forall>i < length g. 0 \<le> ls ! i \<and> ls ! i \<le> MAX_LABEL)
            \<and> (\<forall>i < length g. \<forall>j < length g. \<forall>v w.
                  value_score (g ! i) = Some v \<and> value_score (g ! j) = Some w \<and> v < w
                  \<longrightarrow> ls ! i \<le> ls ! j)
            \<and> (length g = 1 \<longrightarrow> ls ! 0 = 0)"
proof -
  let ?vs = "map (\<lambda>r. fillna 0 (value_score r)) g"
  let ?n = "length g"
  let ?rs = "map (\<lambda>i. (of_nat (rank_nat ?vs i) :: rat)) [0..<?n]"
  let ?zero = "?rs \<noteq> [] \<and> Max (set ?rs) = Min (set ?rs)"
  let ?raw = "if ?zero then replicate (length ?rs) 0 else map (scaled ?rs) ?rs"
  let ?ls = "map (clip 0 MAX_LABEL) ?raw"
  from all have vals: "map value_score g = map Some ?vs"
    by (auto simp: fillna_def)
  have ranks: "rank_first (map value_score g) = map Some ?rs"
    unfolding vals rank_first_Some by simp
  have lg: "label_group g = Inr (zip g ?ls)"
    unfolding label_group_def ranks scale_group_Some by simp
  have len: "length ?ls = ?n" by simp
  have range: "\<forall>i < ?n. 0 \<le> ?ls ! i \<and> ?ls ! i \<le> MAX_LABEL"
    by (auto simp: clip_def MAX_LABEL_def)
  have minmax: "Min (set ?rs) \<le> Max (set ?rs)" if "g \<noteq> []"
  proof -
    from that have "?rs ! 0 \<in> set ?rs" by (intro nth_mem) simp
    then have "Min (set ?rs) \<le> ?rs ! 0" "?rs ! 0 \<le> Max (set ?rs)"
      by (simp_all only: Min_le Max_ge List.finite_set)
    then show ?thesis by linarith
  qed
  have mono: "\<forall>i < ?n. \<forall>j < ?n. \<forall>v w.
                  value_score (g ! i) = Some v \<and> value_score (g ! j) = Some w \<and> v < w
                  \<longrightarrow> ?ls ! i \<le> ?ls ! j"
  proof (intro allI impI)
    fix i j v w
    assume i: "i < ?n" and j: "j < ?n"
      and vw: "value_score (g ! i) = Some v \<and> value_score (g ! j) = Some w \<and> v < w"
    then have "?vs ! i < ?vs ! j" by (simp add: fillna_def)
    then have "rank_nat ?vs i \<le> rank_nat ?vs j" by (rule rank_nat_mono)
    then have rij: "?rs ! i \<le> ?rs ! j" using i j by simp
    from i have ne: "g \<noteq> []" by auto
    have "?raw ! i \<le> ?raw ! j"
    proof (cases ?zero)
      case True
      with i j show ?thesis by simp
    next
      case False
      with i j scaled_mono [OF rij minmax [OF ne]] show ?thesis by simp
    qed
    then have "clip 0 MAX_LABEL (?raw ! i) \<le> clip 0 MAX_LABEL (?raw ! j)"
      by (auto simp: clip_def)
    moreover from i j have "?ls ! i = clip 0 MAX_LABEL (?raw ! i)" "?ls ! j = clip 0 MAX_LABEL (?raw ! j)"
      by (simp_all split: if_splits)
    ultimately show "?ls ! i \<le> ?ls ! j" by simp
  qed
  have single: "?n = 1 \<longrightarrow> ?ls ! 0 = 0"
    by (auto simp: clip_def MAX_LABEL_def)
  from lg len range mono single show ?thesis by blast
qed


lemma label_group_ok:
  assumes all: "\<forall>r \<in> set g. value_score r \<noteq> None"
  shows "\<exists>lg. label_group g = Inr lg \<and> map fst lg = g \<and> labels_ok lg"
proof -
  from label_group_Some [OF all] obtain ls where
    lg: "label_group g = Inr (zip g ls)" and len: "length ls = length g"
    and range: "\<forall>i < length g. 0 \<le> ls ! i \<and> ls ! i \<le> MAX_LABEL"
    and mono: "\<forall>i < length g. \<forall>j < length g. \<forall>v w.
                  value_score (g ! i) = Some v \<and> value_score (g ! j) = Some w \<and> v < w
                  \<longrightarrow> ls ! i \<le> ls ! j"
    and single: "length g = 1 \<longrightarrow> ls ! 0 = 0"
    by blast
  from len have fst: "map fst (zip g ls) = g" by simp
  from len range mono single have "labels_ok (zip g ls)"
    unfolding labels_ok_def by simp
  with lg fst show ?thesis by blast
qed

lemma groupby_rows:
  assumes "g \<in> set (groupby_sub_category df)"
  shows "set g \<subseteq> set df" and "\<forall>r \<in> set g. \<forall>r' \<in> set g. Sub_category r = Sub_category r'"
  using assms by (auto simp: groupby_sub_category_def Let_def)

text \<open>
  C2 (amended): for every training set, after \<open>train\<close>'s \<open>dropna\<close>, label construction
  succeeds and returns the rows of each sub-category group with integer labels in
  \<open>0..MAX_LABEL\<close>, \<open>MAX_LABEL = 30\<close>; within a group a row with a strictly smaller value
  score never has a larger label; the row of a group of size 1 has label 0.
\<close>

theorem relevance_labels:
  "MAX_LABEL = 30 \<and>
   (\<exists>lgs. labelled_groups (dropna_train df) = Inr lgs
      \<and> build_groups_and_labels (dropna_train df) = Inr (concat lgs, map length lgs)
      \<and> map (map fst) lgs = groupby_sub_category (dropna_train df)
      \<and> (\<forall>lg \<in> set lgs.
           (\<forall>i < length lg. 0 \<le> snd (lg ! i) \<and> snd (lg ! i) \<le> MAX_LABEL)
         \<and> (\<forall>i < length lg. \<forall>j < length lg. \<forall>v w.
               value_score (fst (lg ! i)) = Some v \<and> value_score (fst (lg ! j)) = Some w \<and> v < w
               \<longrightarrow> snd (lg ! i) \<le> snd (lg ! j))
         \<and> (length lg = 1 \<longrightarrow> snd (lg ! 0) = 0)))"
proof -
  let ?gs = "groupby_sub_category (dropna_train df)"
  have "\<forall>g \<in> set ?gs. \<exists>lg. label_group g = Inr lg \<and> map fst lg = g \<and> labels_ok lg"
  proof
    fix g assume "g \<in> set ?gs"
    from groupby_rows(1) [OF this] have "\<forall>r \<in> set g. value_score r \<noteq> None"
      by (auto simp: dropna_train_def)
    then show "\<exists>lg. label_group g = Inr lg \<and> map fst lg = g \<and> labels_ok lg"
      by (rule label_group_ok)
  qed
  from bchoice [OF this] obtain h
    where h: "\<forall>g \<in> set ?gs. label_group g = Inr (h g) \<and> map fst (h g) = g \<and> labels_ok (h g)"
    by blast
  let ?lgs = "map h ?gs"
  from h have lab: "labelled_groups (dropna_train df) = Inr ?lgs"
    unfolding labelled_groups_def by (intro collect_all_Inr) simp
  have fsts: "map (map fst) ?lgs = ?gs"
  proof -
    have "map (\<lambda>g. map fst (h g)) ?gs = map (\<lambda>g. g) ?gs"
      by (rule map_cong [OF refl]) (use h in blast)
    then show ?thesis by (simp add: comp_def)
  qed
  have lens: "map length ?lgs = map length ?gs"
  proof -
    have "length (h g) = length g" if "g \<in> set ?gs" for g
    proof -
      from h that have "map fst (h g) = g" by blast
      then have "length (map fst (h g)) = length g" by (rule arg_cong)
      then show ?thesis by simp
    qed
    then have "map (\<lambda>g. length (h g)) ?gs = map length ?gs"
      by (intro map_cong [OF refl])
    then show ?thesis by (simp add: comp_def)
  qed
  from lab lens have build: "build_groups_and_labels (dropna_train df) = Inr (concat ?lgs, map length ?lgs)"
    unfolding build_groups_and_labels_def by simp
  from h have "\<forall>lg \<in> set ?lgs. labels_ok lg" by simp
  then have ok: "\<forall>lg \<in> set ?lgs.
           (\<forall>i < length lg. 0 \<le> snd (lg ! i) \<and> snd (lg ! i) \<le> MAX_LABEL)
         \<and> (\<forall>i < length lg. \<forall>j < length lg. \<forall>v w.
               value_score (fst (lg ! i)) = Some v \<and> value_score (fst (lg ! j)) = Some w \<and> v < w
               \<longrightarrow> snd (lg ! i) \<le> snd (lg ! j))
         \<and> (length lg = 1 \<longrightarrow> snd (lg ! 0) = 0)"
    unfolding labels_ok_def .
  have "MAX_LABEL = 30" by (simp add: MAX_LABEL_def)
  moreover from lab build fsts ok have "\<exists>lgs. labelled_groups (dropna_train df) = Inr lgs
      \<and> build_groups_and_labels (dropna_train df) = Inr (concat lgs, map length lgs)
      \<and> map (map fst) lgs = groupby_sub_category (dropna_train df)
      \<and> (\<forall>lg \<in> set lgs.
           (\<forall>i < length lg. 0 \<le> snd (lg ! i) \<and> snd (lg ! i) \<le> MAX_LABEL)
         \<and> (\<forall>i < length lg. \<forall>j < length lg. \<forall>v w.
               value_score (fst (lg ! i)) = Some v \<and> value_score (fst (lg ! j)) = Some w \<and> v < w
               \<longrightarrow> snd (lg ! i) \<le> snd (lg ! j))
         \<and> (length lg = 1 \<longrightarrow> snd (lg ! 0) = 0))"
    by (intro exI [of _ ?lgs] conjI)
  ultimately show ?thesis by (rule conjI)
qed


theorem relevance_labels_witness:
  "\<exists>lgs. labelled_groups (dropna_train train_sample) = Inr lgs
     \<and> map (map snd) lgs = [[0], [0], [0, 15, 8, 30, 22]]
     \<and> map (map (\<lambda>p. value_score (fst p))) lgs
         = [[Some 1], [Some 2], [Some 1, Some 3, Some 2, Some 5, Some 4]]"
proof -
  from relevance_labels [of train_sample] obtain lgs
    where lgs: "labelled_groups (dropna_train train_sample) = Inr lgs" by blast
  have "map_sum id (map (map snd)) (labelled_groups (dropna_train train_sample))
          = Inr [[0], [0], [0, 15, 8, 30, 22]]"
    by code_simp
  moreover have "map_sum id (map (map (\<lambda>p. value_score (fst p)))) (labelled_groups (dropna_train train_sample))
          = Inr [[Some 1], [Some 2], [Some 1, Some 3, Some 2, Some 5, Some 4]]"
    by code_simp
  ultimately show ?thesis using lgs by simp
qed

text \<open>
  C2 as stated fails: ten rows of one sub-category that all share the value score 1 get the
  labels 0, 3, 7, ..., 30, because ties are ranked in order of appearance
  (\<open>method="first"\<close>) and the collapse to 0 tests the ranks, which differ.
\<close>

theorem constant_value_group_counterexample:
  "map value_score tied_products = replicate 10 (Some 1)
   \<and> map Sub_category tied_products = replicate 10 ''Poultry''
   \<and> build_groups_and_labels (dropna_train tied_products)
       = Inr (zip tied_products [0, 3, 7, 10, 13, 17, 20, 23, 27, 30], [10])"
  by code_simp

section \<open>Properties of the price predictor\<close>




section \<open>Properties of the search index\<close>

lemma length_head_le: "0 \<le> n \<Longrightarrow> length (head n xs) \<le> nat n"
  by (simp add: head_def)

lemma sorted_wrt_head: "sorted_wrt P xs \<Longrightarrow> sorted_wrt P (head n xs)"
  by (simp add: head_def sorted_wrt_take)

lemma map_head: "map f (head n xs) = head n (map f xs)"
  by (simp add: head_def take_map)

lemma iloc_length: "iloc df ps = Inr res \<Longrightarrow> length res = length ps"
  by (auto simp: iloc_def Let_def split: if_splits)

lemma argsort_descending:
  "sorted_wrt (\<lambda>a b. b \<le> a) (map (\<lambda>i. scores ! i) (rev (argsort scores)))"
proof -
  have "sorted (map (\<lambda>i. scores ! i) (argsort scores))"
    unfolding argsort_def by simp
  then have "sorted_wrt (\<lambda>a b. b \<le> a) (rev (map (\<lambda>i. scores ! i) (argsort scores)))"
    by (simp add: sorted_wrt_rev)
  then show ?thesis by (simp add: rev_map)
qed

lemma set_argsort: "set (argsort scores) = {0..<length scores}"
  by (simp add: argsort_def)

lemma map2_search_score:
  "length result = length xs \<Longrightarrow>
     map search_score (map2 (\<lambda>r x. r \<lparr> search_score := Some (f x) \<rparr>) result xs) = map (\<lambda>x. Some (f x)) xs"
  by (induction result xs rule: list_induct2) auto

lemma search_tfidf_props:
  assumes k: "0 \<le> top_k" and ok: "search_tfidf tf df q top_k = Inr res"
  shows "has_search_score res \<and> length (rows res) \<le> nat top_k
         \<and> (\<exists>ss. map search_score (rows res) = map Some ss \<and> sorted_wrt (\<lambda>a b. b \<le> a) ss)"
proof -
  let ?scores = "tf q"
  let ?top = "head top_k (rev (argsort ?scores))"
  from ok obtain result where il: "iloc df (map int ?top) = Inr result"
    and res: "res = \<lparr> has_search_score = True,
                       rows = map2 (\<lambda>r i. r \<lparr> search_score := Some (?scores ! i) \<rparr>) result ?top \<rparr>"
    unfolding search_tfidf_def Let_def by (auto split: sum.splits)
  from iloc_length [OF il] have len: "length result = length ?top" by simp
  have "sorted_wrt (\<lambda>a b. b \<le> a) (map (\<lambda>i. ?scores ! i) ?top)"
    unfolding map_head by (rule sorted_wrt_head [OF argsort_descending])
  moreover have "map search_score (rows res) = map Some (map (\<lambda>i. ?scores ! i) ?top)"
  proof -
    from res have "rows res = map2 (\<lambda>r i. r \<lparr> search_score := Some (?scores ! i) \<rparr>) result ?top"
      by simp
    then have "map search_score (rows res) = map (\<lambda>i. Some (?scores ! i)) ?top"
      by (simp only: map2_search_score [OF len])
    then show ?thesis by (simp add: comp_def)
  qed
  moreover from res len length_head_le [OF k, of "rev (argsort ?scores)"]
  have "length (rows res) \<le> nat top_k" by simp
  moreover from res have "has_search_score res" by simp
  ultimately show ?thesis by blast
qed

lemma search_faiss_props:
  assumes c: "length scores = nat top_k \<and> sorted_wrt (\<lambda>a b. b \<le> a) scores"
      and lib: "ix q top_k = Inr (scores, indices)"
      and ok: "search_faiss ix df q top_k = Inr res"
  shows "has_search_score res \<and> length (rows res) \<le> nat top_k
         \<and> (\<exists>ss. map search_score (rows res) = map Some ss \<and> sorted_wrt (\<lambda>a b. b \<le> a) ss)"
proof -
  from ok lib obtain result where il: "iloc df indices = Inr result"
    and len: "length scores = length result"
    and res: "res = \<lparr> has_search_score = True,
                       rows = map2 (\<lambda>r s. r \<lparr> search_score := Some s \<rparr>) result scores \<rparr>"
    unfolding search_faiss_def by (auto split: sum.splits if_splits)
  have "map search_score (rows res) = map Some scores"
  proof -
    from res have "rows res = map2 (\<lambda>r s. r \<lparr> search_score := Some s \<rparr>) result scores"
      by simp
    then show ?thesis
      by (simp only: map2_search_score [OF len [symmetric], of "\<lambda>s. s"])
  qed
  moreover from res len c have "length (rows res) \<le> nat top_k" by simp
  moreover from res have "has_search_score res" by simp
  ultimately show ?thesis using c by blast
qed

lemma iloc_nat_ok:
  assumes "\<forall>i \<in> set ps. i < length df"
  shows "\<exists>res. iloc df (map int ps) = Inr res"
  using assms by (auto simp: iloc_def Let_def list_all_iff)

lemma search_tfidf_total:
  assumes "length (tf q) \<le> length df"
  shows "\<exists>res. search_tfidf tf df q top_k = Inr res"
proof -
  let ?top = "head top_k (rev (argsort (tf q)))"
  have "\<forall>i \<in> set ?top. i < length df"
  proof
    fix i assume "i \<in> set ?top"
    with set_head_subset [of top_k "rev (argsort (tf q))"] have "i \<in> set (argsort (tf q))" by auto
    with assms show "i < length df" by (simp add: set_argsort)
  qed
  from iloc_nat_ok [OF this] obtain result where "iloc df (map int ?top) = Inr result" by blast
  then show ?thesis unfolding search_tfidf_def Let_def by simp
qed



lemma semantic_index_contract: "faiss_contract semantic_index"
proof -
  have "sorted_wrt (\<lambda>a b. b \<le> a) (take n ([9 / 10, 1 / 2] @ replicate m (- 1000 :: rat)))" for n m
  proof -
    have "sorted_wrt (\<lambda>a b. b \<le> a) (replicate m (- 1000 :: rat))"
      by (induction m) auto
    then show ?thesis by (intro sorted_wrt_take) (simp add: sorted_wrt_append)
  qed
  then show ?thesis
    unfolding faiss_contract_def semantic_index_def
    by (auto split: if_splits)
qed



section \<open>Properties of the inference pipeline\<close>

lemma select_rows_map: "rows (select_rows df (map P (rows df))) = filter P (rows df)"
proof -
  have "map fst (filter snd (zip xs (map P xs))) = filter P xs" for xs :: "product list"
    by (induction xs) auto
  then show ?thesis by (simp add: select_rows_def)
qed

lemma has_search_score_select_rows: "has_search_score (select_rows df keep) = has_search_score df"
  by (simp add: select_rows_def)

lemma some_true: "(0 < length (filter id (map P xs))) = (\<exists>x \<in> set xs. P x)"
  by (simp add: filter_map comp_def filter_empty_conv)

lemma soft_filter_nonempty: "xs \<noteq> [] \<Longrightarrow> soft_filter P xs \<noteq> []"
  by (auto simp: soft_filter_def filter_empty_conv)

lemma location_filter_rows:
  "rows (location_filter rc rs cands)
     = soft_filter (state_matches rs) (soft_filter (city_matches rc) (rows cands))"
proof -
  define c1 where "c1 = (case rc of
               None \<Rightarrow> cands
             | Some c \<Rightarrow>
                 if c = [] then cands
                 else if 0 < length (filter id (map (\<lambda>r. lower (city r) = lower c) (rows cands)))
                      then select_rows cands (map (\<lambda>r. lower (city r) = lower c) (rows cands))
                      else cands)"
  have lf: "location_filter rc rs cands =
              (case rs of
                 None \<Rightarrow> c1
               | Some s \<Rightarrow>
                   if s = [] then c1
                   else if 0 < length (filter id (map (\<lambda>r. upper (state r) = upper s) (rows c1)))
                        then select_rows c1 (map (\<lambda>r. upper (state r) = upper s) (rows c1))
                        else c1)"
    unfolding location_filter_def Let_def c1_def by (rule refl)
  have r1: "rows c1 = soft_filter (city_matches rc) (rows cands)"
  proof (cases rc)
    case None
    then show ?thesis by (simp add: c1_def soft_filter_def city_matches_def)
  next
    case (Some c)
    show ?thesis
    proof (cases "c = []")
      case True
      with Some show ?thesis by (simp add: c1_def soft_filter_def city_matches_def)
    next
      case False
      with Some have cm: "city_matches rc = (\<lambda>r. lower (city r) = lower c)"
        by (simp add: city_matches_def fun_eq_iff)
      from Some False show ?thesis
        unfolding c1_def cm soft_filter_def
        by (auto simp: some_true select_rows_map filter_empty_conv)
    qed
  qed
  have r2: "rows (location_filter rc rs cands) = soft_filter (state_matches rs) (rows c1)"
  proof (cases rs)
    case None
    then show ?thesis
      unfolding lf by (simp add: soft_filter_def state_matches_def)
  next
    case (Some s)
    show ?thesis
    proof (cases "s = []")
      case True
      with Some show ?thesis
        unfolding lf by (simp add: soft_filter_def state_matches_def)
    next
      case False
      with Some have sm: "state_matches rs = (\<lambda>r. upper (state r) = upper s)"
        by (simp add: state_matches_def fun_eq_iff)
      from Some False show ?thesis
        unfolding lf sm soft_filter_def
        by (auto simp: some_true select_rows_map filter_empty_conv)
    qed
  qed
  from r1 r2 show ?thesis by simp
qed

text \<open>
  C5: the rows the location step of \<open>recommend\<close> leaves are those of the city filter when
  at least one candidate matches the city (else all candidates), then those of the state
  filter on that set when at least one of its rows matches the state (else that set); a
  non-empty candidate set stays non-empty.
\<close>

theorem location_filter_soft:
  "rows (location_filter rc rs cands) =
     (let after_city = (if \<exists>r \<in> set (rows cands). city_matches rc r
                        then filter (city_matches rc) (rows cands) else rows cands)
      in if \<exists>r \<in> set after_city. state_matches rs r
         then filter (state_matches rs) after_city else after_city)
   \<and> (rows cands \<noteq> [] \<longrightarrow> rows (location_filter rc rs cands) \<noteq> [])"
proof -
  have "rows (location_filter rc rs cands) \<noteq> []" if "rows cands \<noteq> []"
    unfolding location_filter_rows
    by (intro soft_filter_nonempty that)
  then show ?thesis
    unfolding location_filter_rows by (simp add: soft_filter_def Let_def)
qed


theorem location_filter_soft_witness:
  "map Product_Name (rows (location_filter (Some ''MELBOURNE'') (Some ''nsw'') catalog_frame))
     = [''Milk 2L'']
   \<and> rows (location_filter (Some ''MELBOURNE'') (Some ''nsw'') catalog_frame) \<noteq> []"
proof -
  have ne: "rows catalog_frame \<noteq> []" by code_simp
  have ev: "map Product_Name (rows (location_filter (Some ''MELBOURNE'') (Some ''nsw'') catalog_frame))
              = [''Milk 2L'']"
    by code_simp
  from location_filter_soft [of "Some ''MELBOURNE''" "Some ''nsw''" catalog_frame] ne
  have "rows (location_filter (Some ''MELBOURNE'') (Some ''nsw'') catalog_frame) \<noteq> []"
    by blast
  with ev show ?thesis by simp
qed

lemma round_half_even_close: "\<bar>of_int (round_half_even x) - x\<bar> \<le> 1 / 2"
proof -
  have "of_int \<lfloor>x\<rfloor> \<le> x" "x < of_int \<lfloor>x\<rfloor> + 1" by linarith+
  then show ?thesis
    by (auto simp: round_half_even_def Let_def abs_le_iff)
qed

lemma round_dec_spec:
  "(\<exists>z::int. round_dec k x = of_int z / 10 ^ k) \<and> \<bar>round_dec k x - x\<bar> \<le> 1 / (2 * 10 ^ k)"
proof
  show "\<exists>z::int. round_dec k x = of_int z / 10 ^ k"
    unfolding round_dec_def by blast
  have pos: "(0::rat) < 10 ^ k" by simp
  have "round_dec k x - x = (of_int (round_half_even (x * 10 ^ k)) - x * 10 ^ k) / 10 ^ k"
    unfolding round_dec_def by (simp add: diff_divide_distrib)
  then have "\<bar>round_dec k x - x\<bar> = \<bar>of_int (round_half_even (x * 10 ^ k)) - x * 10 ^ k\<bar> / 10 ^ k"
    by simp
  also have "\<dots> \<le> (1 / 2) / 10 ^ k"
    by (rule divide_right_mono [OF round_half_even_close]) simp
  finally show "\<bar>round_dec k x - x\<bar> \<le> 1 / (2 * 10 ^ k)" by simp
qed

lemma iloc_subset:
  assumes "iloc df ps = Inr res"
  shows "set res \<subseteq> set df"
proof -
  let ?n = "int (length df)"
  from assms have ok: "\<forall>i \<in> set ps. - ?n \<le> i \<and> i < ?n"
    and res: "res = map (\<lambda>i. df ! nat (if i < 0 then i + ?n else i)) ps"
    by (auto simp: iloc_def Let_def list_all_iff split: if_splits)
  have "df ! nat (if i < 0 then i + ?n else i) \<in> set df" if "i \<in> set ps" for i
  proof -
    from ok that have "nat (if i < 0 then i + ?n else i) < length df" by auto
    then show ?thesis by (rule nth_mem)
  qed
  with res show ?thesis by auto
qed

lemma map2_scored_rows:
  assumes "r \<in> set (map2 (\<lambda>p x. p \<lparr> search_score := g x \<rparr>) result xs)"
  shows "\<exists>p \<in> set result. r = p \<lparr> search_score := search_score r \<rparr>"
proof -
  from assms obtain p x where "(p, x) \<in> set (zip result xs)" and r: "r = p \<lparr> search_score := g x \<rparr>"
    by auto
  then have "p \<in> set result" by (auto dest: set_zip_leftD)
  moreover from r have "r = p \<lparr> search_score := search_score r \<rparr>" by simp
  ultimately show ?thesis by blast
qed

lemma search_rows_from_catalog:
  assumes "search self q k = Inr f" and "r \<in> set (rows f)"
  shows "\<exists>p \<in> set (product_df self). r = p \<lparr> search_score := search_score r \<rparr>"
proof (cases "if use_faiss self then index self else None")
  case None
  with assms(1) obtain tf where "search_tfidf tf (product_df self) q k = Inr f"
    unfolding search_def by (auto split: option.splits)
  then obtain result where il: "iloc (product_df self) (map int (head k (rev (argsort (tf q))))) = Inr result"
    and f: "rows f = map2 (\<lambda>r i. r \<lparr> search_score := Some (tf q ! i) \<rparr>) result (head k (rev (argsort (tf q))))"
    unfolding search_tfidf_def Let_def by (auto split: sum.splits)
  from assms(2) have "r \<in> set (map2 (\<lambda>r i. r \<lparr> search_score := Some (tf q ! i) \<rparr>) result (head k (rev (argsort (tf q)))))"
    unfolding f .
  from map2_scored_rows [OF this]
  obtain p where "p \<in> set result" "r = p \<lparr> search_score := search_score r \<rparr>" by blast
  with iloc_subset [OF il] show ?thesis by blast
next
  case (Some ix)
  with assms(1) have "search_faiss ix (product_df self) q k = Inr f"
    unfolding search_def by simp
  then obtain scores indices result where il: "iloc (product_df self) indices = Inr result"
    and f: "rows f = map2 (\<lambda>r s. r \<lparr> search_score := Some s \<rparr>) result scores"
    unfolding search_faiss_def by (auto split: sum.splits if_splits)
  from assms(2) have "r \<in> set (map2 (\<lambda>r s. r \<lparr> search_score := Some s \<rparr>) result scores)"
    unfolding f .
  from map2_scored_rows [OF this]
  obtain p where "p \<in> set result" "r = p \<lparr> search_score := search_score r \<rparr>" by blast
  with iloc_subset [OF il] show ?thesis by blast
qed

lemma location_filter_subset: "set (rows (location_filter rc rs cands)) \<subseteq> set (rows cands)"
  unfolding location_filter_rows by (auto simp: soft_filter_def)

lemma recommend_rows:
  assumes "recommend self q b rc rs n = Inr res" and "r \<in> set res"
  shows "\<exists>cands c. search (search_index self) q 50 = Inr cands \<and> c \<in> set (rows cands)
           \<and> Package_price c \<le> b \<and> r = format_record c"
proof -
  from assms obtain cands where s: "search (search_index self) q 50 = Inr cands"
    and res: "res = map format_record (rank_products (ranker self) (location_filter rc rs cands) b n)"
    unfolding recommend_def Let_def by (auto split: sum.splits if_splits)
  with assms(2) obtain c where c: "c \<in> set (rank_products (ranker self) (location_filter rc rs cands) b n)"
    and r: "r = format_record c" by auto
  from c rank_products_subset [of "ranker self" "location_filter rc rs cands" b n]
  have "c \<in> set (rows (location_filter rc rs cands))" "Package_price c \<le> b" by auto
  with location_filter_subset [of rc rs cands] have "c \<in> set (rows cands)" "Package_price c \<le> b" by auto
  with s r show ?thesis by blast
qed


lemma format_record_fields:
  "Package_price (format_record c) = round_dec 2 (Package_price c)"
  "price_per_100g (format_record c) = map_option (round_dec 2) (price_per_100g c)"
  "discount_pct (format_record c) = map_option (\<lambda>d. round_dec 1 (d * 100)) (discount_pct c)"
  "value_score (format_record c) = map_option (round_dec 2) (value_score c)"
  "Product_Name (format_record c) = Product_Name c"
  by (simp_all add: format_record_def output_columns.truncate_def)



section \<open>Properties of the basket endpoint\<close>

lemma basket_line_cases:
  "basket_line p req pib q =
     (case recommend p q pib (RecommendRequest.city req) (RecommendRequest.state req) 3 of
        Inl e \<Rightarrow> Inl e
      | Inr [] \<Rightarrow>
          (case recommend p q (RecommendRequest.total_budget req) (RecommendRequest.city req) (RecommendRequest.state req) 3 of
             Inl e \<Rightarrow> Inl e
           | Inr [] \<Rightarrow>
               Inr (\<lparr> query = q, best_match = None, alternatives = [], estimated_cost = 0 \<rparr>,
                    [(q, pib, RecommendRequest.city req, RecommendRequest.state req, 3),
                     (q, RecommendRequest.total_budget req, RecommendRequest.city req, RecommendRequest.state req, 3)])
           | Inr (b # rest) \<Rightarrow>
               Inr (\<lparr> query = q, best_match = Some b, alternatives = rest, estimated_cost = Package_price b \<rparr>,
                    [(q, pib, RecommendRequest.city req, RecommendRequest.state req, 3),
                     (q, RecommendRequest.total_budget req, RecommendRequest.city req, RecommendRequest.state req, 3)]))
      | Inr (b # rest) \<Rightarrow>
          Inr (\<lparr> query = q, best_match = Some b, alternatives = rest, estimated_cost = Package_price b \<rparr>,
               [(q, pib, RecommendRequest.city req, RecommendRequest.state req, 3)]))"
  by (simp add: basket_line_def Let_def split: sum.splits list.splits)

lemma basket_loop_lines:
  "basket_loop p req pib qs (ls, t, cs) = Inr (ls', t', cs') \<Longrightarrow>
     \<exists>new. list_all2 (\<lambda>q ln. basket_line p req pib q = Inr ln) qs new
        \<and> ls' = ls @ map fst new
        \<and> t' = t + sum_list (map (\<lambda>ln. estimated_cost (fst ln)) new)
        \<and> cs' = cs @ concat (map snd new)"
proof (induction qs arbitrary: ls t cs)
  case Nil
  then show ?case by simp
next
  case (Cons q qs)
  from Cons.prems obtain line made where bl: "basket_line p req pib q = Inr (line, made)"
    and rest: "basket_loop p req pib qs (ls @ [line], t + estimated_cost line, cs @ made) = Inr (ls', t', cs')"
    by (auto split: sum.splits)
  from Cons.IH [OF rest] obtain new where
    n1: "list_all2 (\<lambda>q ln. basket_line p req pib q = Inr ln) qs new"
    and n2: "ls' = (ls @ [line]) @ map fst new"
    and n3: "t' = (t + estimated_cost line) + sum_list (map (\<lambda>ln. estimated_cost (fst ln)) new)"
    and n4: "cs' = (cs @ made) @ concat (map snd new)"
    by blast
  let ?new = "(line, made) # new"
  from bl n1 have "list_all2 (\<lambda>q ln. basket_line p req pib q = Inr ln) (q # qs) ?new" by simp
  moreover from n2 have "ls' = ls @ map fst ?new" by simp
  moreover from n3 have "t' = t + sum_list (map (\<lambda>ln. estimated_cost (fst ln)) ?new)" by simp
  moreover from n4 have "cs' = cs @ concat (map snd ?new)" by simp
  ultimately show ?case by blast
qed

lemma basket_loop_total:
  assumes "\<forall>q \<in> set qs. \<exists>ln. basket_line p req pib q = Inr ln"
  shows "\<exists>st'. basket_loop p req pib qs (ls, t, cs) = Inr st'"
  using assms
proof (induction qs arbitrary: ls t cs)
  case Nil
  then show ?case by simp
next
  case (Cons q qs)
  from Cons.prems obtain line made where bl: "basket_line p req pib q = Inr (line, made)" by fastforce
  from Cons.prems have "\<forall>q \<in> set qs. \<exists>ln. basket_line p req pib q = Inr ln" by simp
  from Cons.IH [OF this, of "ls @ [line]" "t + estimated_cost line" "cs @ made"] bl
  show ?case by simp
qed

lemma recommend_total:
  assumes "search (search_index p) q 50 = Inr f"
  shows "\<exists>res. recommend p q b c s n = Inr res"
  using assms unfolding recommend_def Let_def by simp

lemma basket_line_total:
  assumes "search (search_index p) q 50 = Inr f"
  shows "\<exists>ln. basket_line p req pib q = Inr ln"
proof -
  from recommend_total [OF assms] obtain r1 r2
    where "recommend p q pib (RecommendRequest.city req) (RecommendRequest.state req) 3 = Inr r1"
      and "recommend p q (RecommendRequest.total_budget req) (RecommendRequest.city req) (RecommendRequest.state req) 3 = Inr r2"
    by metis
  then show ?thesis
    unfolding basket_line_cases by (cases r1; cases r2) simp_all
qed


lemma round_half_even_of_int: "round_half_even (of_int z) = z"
  by (simp add: round_half_even_def Let_def)

lemma round_dec_hundredths: "hundredths x \<Longrightarrow> round_dec 2 x = x"
  by (auto simp: hundredths_def round_dec_def round_half_even_of_int)

lemma hundredths_round_dec: "hundredths (round_dec 2 x)"
  by (auto simp: hundredths_def round_dec_def)

lemma hundredths_0: "hundredths 0"
  unfolding hundredths_def by (rule exI [of _ 0]) simp

lemma hundredths_add: "hundredths x \<Longrightarrow> hundredths y \<Longrightarrow> hundredths (x + y)"
proof -
  assume "hundredths x" "hundredths y"
  then obtain a b :: int where "x = of_int a / 100" "y = of_int b / 100"
    unfolding hundredths_def by blast
  then have "x + y = of_int (a + b) / 100" by (simp add: add_divide_distrib)
  then show ?thesis unfolding hundredths_def by blast
qed

lemma hundredths_sum_list: "(\<forall>x \<in> set xs. hundredths x) \<Longrightarrow> hundredths (sum_list xs)"
  by (induction xs) (auto simp: hundredths_0 hundredths_add)

lemma recommend_prices_hundredths:
  assumes "recommend p q b c s n = Inr res" and "r \<in> set res"
  shows "hundredths (Package_price r)"
proof -
  from recommend_rows [OF assms] obtain c' where "r = format_record c'" by blast
  then show ?thesis by (simp add: format_record_fields hundredths_round_dec)
qed

lemma basket_line_cost:
  assumes "basket_line p req pib q = Inr (line, made)"
  shows "query line = q"
    and "estimated_cost line = (case best_match line of None \<Rightarrow> 0 | Some b \<Rightarrow> Package_price b)"
    and "hundredths (estimated_cost line)"
proof -
  let ?c = "RecommendRequest.city req" and ?s = "RecommendRequest.state req"
  let ?full = "RecommendRequest.total_budget req"
  from assms obtain r1 where r1: "recommend p q pib ?c ?s 3 = Inr r1"
    unfolding basket_line_cases by (auto split: sum.splits)
  show "query line = q"
    using assms r1 unfolding basket_line_cases by (auto split: sum.splits list.splits)
  show "estimated_cost line = (case best_match line of None \<Rightarrow> 0 | Some b \<Rightarrow> Package_price b)"
    using assms r1 unfolding basket_line_cases by (auto split: sum.splits list.splits)
  show "hundredths (estimated_cost line)"
  proof (cases r1)
    case (Cons b rest)
    with assms r1 have "estimated_cost line = Package_price b" unfolding basket_line_cases by auto
    moreover from r1 Cons have "hundredths (Package_price b)"
      by (intro recommend_prices_hundredths [of p q pib ?c ?s 3 r1]) simp_all
    ultimately show ?thesis by simp
  next
    case Nil
    with assms r1 obtain r2 where r2: "recommend p q ?full ?c ?s 3 = Inr r2"
      unfolding basket_line_cases by (auto split: sum.splits)
    show ?thesis
    proof (cases r2)
      case Nil': Nil
      with assms r1 r2 Nil have "estimated_cost line = 0" unfolding basket_line_cases by auto
      then show ?thesis by (simp add: hundredths_0)
    next
      case (Cons b rest)
      with assms r1 r2 Nil have "estimated_cost line = Package_price b" unfolding basket_line_cases by auto
      moreover from r2 Cons have "hundredths (Package_price b)"
        by (intro recommend_prices_hundredths [of p q ?full ?c ?s 3 r2]) simp_all
      ultimately show ?thesis by simp
    qed
  qed
qed


lemma list_all2_map_eq:
  assumes "list_all2 P xs ys" and "\<And>x y. P x y \<Longrightarrow> f y = g x"
  shows "map f ys = map g xs"
  using assms by (induction rule: list_all2_induct) auto

lemma recommend_basket_shape:
  assumes "recommend_basket p req = Inr (resp, calls)"
  shows "\<exists>new. list_all2 (\<lambda>q ln. basket_line p req
                     (RecommendRequest.total_budget req / of_nat (length (items req))) q = Inr ln)
                   (items req) new
           \<and> basket resp = map fst new
           \<and> calls = concat (map snd new)
           \<and> estimated_total resp = round_dec 2 (sum_list (map (\<lambda>ln. estimated_cost (fst ln)) new))
           \<and> within_budget resp
                = (sum_list (map (\<lambda>ln. estimated_cost (fst ln)) new) \<le> RecommendRequest.total_budget req)
           \<and> RecommendResponse.total_budget resp = RecommendRequest.total_budget req"
proof -
  let ?pib = "RecommendRequest.total_budget req / of_nat (length (items req))"
  from assms obtain ls t cs where loop: "basket_loop p req ?pib (items req) ([], 0, []) = Inr (ls, t, cs)"
    and resp: "resp = \<lparr> total_budget = RecommendRequest.total_budget req,
                         estimated_total = round_dec 2 t,
                         within_budget = (t \<le> RecommendRequest.total_budget req),
                         basket = ls \<rparr>"
    and calls: "calls = cs"
    unfolding recommend_basket_def Let_def by (auto split: if_splits sum.splits)
  from basket_loop_lines [OF loop] obtain new where
    "list_all2 (\<lambda>q ln. basket_line p req ?pib q = Inr ln) (items req) new"
    "ls = map fst new" "t = sum_list (map (\<lambda>ln. estimated_cost (fst ln)) new)" "cs = concat (map snd new)"
    by auto
  with resp calls show ?thesis by auto
qed



lemma sample_pipeline_built: "\<exists>f. search (search_index sample_pipeline) q 50 = Inr f"
proof -
  let ?tf = "\<lambda>q. if q = ''chicken'' then [4 / 5, 7 / 10, 3 / 5, 0, 0 :: rat]
                          else if q = ''milk'' then [0, 0, 0, 0, 9 / 10]
                          else [0, 0, 0, 0, 0]"
  have "length (?tf q) \<le> length catalog"
    by (simp add: catalog_def sample_products_def)
  from search_tfidf_total [of ?tf q catalog 50, OF this]
  show ?thesis
    by (simp add: search_def sample_pipeline_def lexical_index_def)
qed


lemma basket_line_retry:
  assumes "basket_line p req pib q = Inr (line, made)"
      and c: "c = RecommendRequest.city req" and s: "s = RecommendRequest.state req"
      and full: "full = RecommendRequest.total_budget req"
  shows "made = (q, pib, c, s, 3) # (if recommend p q pib c s 3 = Inr [] then [(q, full, c, s, 3)] else [])"
    and "(best_match line = None)
           = (recommend p q pib c s 3 = Inr [] \<and> recommend p q full c s 3 = Inr [])"
    and "best_match line = None \<longrightarrow> estimated_cost line = 0"
    and "\<forall>b rest. recommend p q pib c s 3 = Inr (b # rest)
           \<longrightarrow> best_match line = Some b \<and> alternatives line = rest \<and> estimated_cost line = Package_price b"
    and "\<forall>b rest. recommend p q pib c s 3 = Inr [] \<and> recommend p q full c s 3 = Inr (b # rest)
           \<longrightarrow> best_match line = Some b \<and> alternatives line = rest \<and> estimated_cost line = Package_price b"
  using assms(1) unfolding c s full basket_line_cases
  by (auto split: sum.splits list.splits)


text \<open>
  C9: in a successful run the endpoint queries the engine, for each item in order, once
  with the per-item budget (total budget divided by the number of items) and, exactly when
  that returned nothing, once more with the full total budget; a line has no best match
  exactly when both queries returned nothing, and then its cost is 0; otherwise its best
  match is the first result of the first query that returned something.
\<close>

theorem basket_retry_once:
  assumes ok: "recommend_basket p req = Inr (resp, calls)"
      and c: "c = RecommendRequest.city req" and s: "s = RecommendRequest.state req"
      and full: "full = RecommendRequest.total_budget req"
      and pib: "pib = full / of_nat (length (items req))"
  shows "calls = concat (map (\<lambda>q. (q, pib, c, s, 3)
                              # (if recommend p q pib c s 3 = Inr [] then [(q, full, c, s, 3)] else []))
                         (items req))
       \<and> length (basket resp) = length (items req)
       \<and> (\<forall>i < length (items req).
             query (basket resp ! i) = items req ! i
           \<and> ((best_match (basket resp ! i) = None)
                = (recommend p (items req ! i) pib c s 3 = Inr []
                   \<and> recommend p (items req ! i) full c s 3 = Inr []))
           \<and> (best_match (basket resp ! i) = None \<longrightarrow> estimated_cost (basket resp ! i) = 0)
           \<and> (\<forall>b rest. recommend p (items req ! i) pib c s 3 = Inr (b # rest)
                \<longrightarrow> best_match (basket resp ! i) = Some b
                    \<and> estimated_cost (basket resp ! i) = Package_price b)
           \<and> (\<forall>b rest. recommend p (items req ! i) pib c s 3 = Inr []
                         \<and> recommend p (items req ! i) full c s 3 = Inr (b # rest)
                \<longrightarrow> best_match (basket resp ! i) = Some b
                    \<and> estimated_cost (basket resp ! i) = Package_price b))"
proof -
  from recommend_basket_shape [OF ok] obtain new where
    all2: "list_all2 (\<lambda>q ln. basket_line p req pib q = Inr ln) (items req) new"
    and bk: "basket resp = map fst new"
    and cs: "calls = concat (map snd new)"
    unfolding pib full by blast
  have line: "basket_line p req pib q = Inr (fst ln, snd ln)" if "basket_line p req pib q = Inr ln" for q ln
    using that by simp
  have "map snd new = map (\<lambda>q. (q, pib, c, s, 3)
                              # (if recommend p q pib c s 3 = Inr [] then [(q, full, c, s, 3)] else []))
                         (items req)"
    using all2 by (rule list_all2_map_eq) (rule basket_line_retry(1) [OF line c s full])
  with cs have 1: "calls = concat (map (\<lambda>q. (q, pib, c, s, 3)
                              # (if recommend p q pib c s 3 = Inr [] then [(q, full, c, s, 3)] else []))
                         (items req))"
    by simp
  from all2 bk have 2: "length (basket resp) = length (items req)"
    by (simp add: list_all2_lengthD)
  have 3: "\<forall>i < length (items req).
             query (basket resp ! i) = items req ! i
           \<and> ((best_match (basket resp ! i) = None)
                = (recommend p (items req ! i) pib c s 3 = Inr []
                   \<and> recommend p (items req ! i) full c s 3 = Inr []))
           \<and> (best_match (basket resp ! i) = None \<longrightarrow> estimated_cost (basket resp ! i) = 0)
           \<and> (\<forall>b rest. recommend p (items req ! i) pib c s 3 = Inr (b # rest)
                \<longrightarrow> best_match (basket resp ! i) = Some b
                    \<and> estimated_cost (basket resp ! i) = Package_price b)
           \<and> (\<forall>b rest. recommend p (items req ! i) pib c s 3 = Inr []
                         \<and> recommend p (items req ! i) full c s 3 = Inr (b # rest)
                \<longrightarrow> best_match (basket resp ! i) = Some b
                    \<and> estimated_cost (basket resp ! i) = Package_price b)"
  proof (intro allI impI)
    fix i assume i: "i < length (items req)"
    let ?q = "items req ! i" and ?ln = "new ! i"
    from list_all2_nthD [OF all2 i] have bl: "basket_line p req pib ?q = Inr (fst ?ln, snd ?ln)"
      by simp
    from i all2 bk have at: "basket resp ! i = fst ?ln"
      by (simp add: list_all2_lengthD)
    from basket_line_cost(1) [OF bl] basket_line_retry(2-5) [OF bl c s full]
    show "query (basket resp ! i) = items req ! i
           \<and> ((best_match (basket resp ! i) = None)
                = (recommend p (items req ! i) pib c s 3 = Inr []
                   \<and> recommend p (items req ! i) full c s 3 = Inr []))
           \<and> (best_match (basket resp ! i) = None \<longrightarrow> estimated_cost (basket resp ! i) = 0)
           \<and> (\<forall>b rest. recommend p (items req ! i) pib c s 3 = Inr (b # rest)
                \<longrightarrow> best_match (basket resp ! i) = Some b
                    \<and> estimated_cost (basket resp ! i) = Package_price b)
           \<and> (\<forall>b rest. recommend p (items req ! i) pib c s 3 = Inr []
                         \<and> recommend p (items req ! i) full c s 3 = Inr (b # rest)
                \<longrightarrow> best_match (basket resp ! i) = Some b
                    \<and> estimated_cost (basket resp ! i) = Package_price b)"
      unfolding at by blast
  qed
  from 1 2 3 show ?thesis by blast
qed

theorem basket_retry_once_witness:
  "map_sum id (\<lambda>rc. (snd rc, map (\<lambda>l. map_option Product_Name (best_match l)) (basket (fst rc)),
                        map estimated_cost (basket (fst rc))))
       (recommend_basket sample_pipeline basket_request)
     = Inr ([(''chicken'', 4, None, None, 3), (''chicken'', 12, None, None, 3),
             (''milk'', 4, None, None, 3),
             (''bread'', 4, None, None, 3), (''bread'', 12, None, None, 3)],
            [Some ''Cheap Chicken'', Some ''Milk 2L'', None], [5, 349 / 100, 0])
   \<and> (\<exists>resp calls. recommend_basket sample_pipeline basket_request = Inr (resp, calls)
         \<and> length (basket resp) = 3)"
proof -
  have ev: "map_sum id (\<lambda>rc. (snd rc, map (\<lambda>l. map_option Product_Name (best_match l)) (basket (fst rc)),
                        map estimated_cost (basket (fst rc))))
       (recommend_basket sample_pipeline basket_request)
     = Inr ([(''chicken'', 4, None, None, 3), (''chicken'', 12, None, None, 3),
             (''milk'', 4, None, None, 3),
             (''bread'', 4, None, None, 3), (''bread'', 12, None, None, 3)],
            [Some ''Cheap Chicken'', Some ''Milk 2L'', None], [5, 349 / 100, 0])"
    by code_simp
  then obtain resp calls where ok: "recommend_basket sample_pipeline basket_request = Inr (resp, calls)"
    by (cases "recommend_basket sample_pipeline basket_request") auto
  from basket_retry_once [OF ok refl refl refl refl]
  have "length (basket resp) = length (items basket_request)" by blast
  then have "length (basket resp) = 3" by (simp add: basket_request_def)
  with ok ev show ?thesis by blast
qed

end
